theory Spec2Isabelle
  imports Complex_Main "HOL-Library.Sublist" "HOL-Library.Multiset"
begin

section \<open>Python strings\<close>

text \<open>
  A Python \<open>str\<close> is a sequence of code points. It is modelled as a \<open>string\<close>, whose
  characters are read as the code points U+0000 to U+00FF; \<open>length\<close> is then Python's
  \<open>len\<close>. The functions of the standard library that the two scripts call are written
  out on that range.
\<close>

definition isspace :: "char \<Rightarrow> bool" where
  \<comment> \<open>\<open>str.isspace\<close>, also the class \<open>\s\<close> of \<open>re\<close> on \<open>str\<close> patterns\<close>
  "isspace c =
     (let n = (of_char c :: nat)
      in (9 \<le> n \<and> n \<le> 13) \<or> (28 \<le> n \<and> n \<le> 32) \<or> n = 133 \<or> n = 160)"

definition is_az :: "char \<Rightarrow> bool" where
  \<comment> \<open>the class \<open>[a-z]\<close>\<close>
  "is_az c = (let n = (of_char c :: nat) in 97 \<le> n \<and> n \<le> 122)"

definition is_digit :: "char \<Rightarrow> bool" where
  \<comment> \<open>the class \<open>\d\<close>: the decimal digits below U+0100 are \<open>0\<close> to \<open>9\<close>\<close>
  "is_digit c = (let n = (of_char c :: nat) in 48 \<le> n \<and> n \<le> 57)"

definition lower_char :: "char \<Rightarrow> char" where
  \<comment> \<open>lowercase mapping of one code point: A-Z, and U+00C0 to U+00DE except U+00D7\<close>
  "lower_char c =
     (let n = (of_char c :: nat)
      in if (65 \<le> n \<and> n \<le> 90) \<or> (192 \<le> n \<and> n \<le> 222 \<and> n \<noteq> 215)
         then char_of (n + 32) else c)"

definition lower :: "string \<Rightarrow> string" where
  \<comment> \<open>\<open>str.lower()\<close>\<close>
  "lower s = map lower_char s"

definition strip :: "string \<Rightarrow> string" where
  \<comment> \<open>\<open>str.strip()\<close>: whitespace removed at both ends\<close>
  "strip s = rev (dropWhile isspace (rev (dropWhile isspace s)))"

fun join :: "string \<Rightarrow> string list \<Rightarrow> string" where
  \<comment> \<open>\<open>sep.join(tokens)\<close>\<close>
  "join sep [] = []"
| "join sep [t] = t"
| "join sep (t # u # ts) = t @ sep @ join sep (u # ts)"

section \<open>scraper.py: the noise filter\<close>

text \<open>
  The entries of \<open>NOISE_PATTERNS\<close> use literals, one alternation, \<open>\d+\<close> and the anchors
  \<open>^\<close> and \<open>$\<close>. A pattern is kept as its anchors and its body; \<open>re_search\<close> is
  \<open>r.search(t)\<close> for a pattern compiled with \<open>re.IGNORECASE\<close> and without
  \<open>re.MULTILINE\<close>: \<open>^\<close> is the start of the string, \<open>$\<close> its end or the place before
  a final newline.
\<close>

datatype atom = Lit string | OneOf "string list" | Digits

datatype noise_re = Re bool "atom list" bool

definition ci_eq :: "char \<Rightarrow> char \<Rightarrow> bool" where
  "ci_eq p c = (lower_char c = lower_char p)"

fun ci_prefix :: "string \<Rightarrow> string \<Rightarrow> bool" where
  "ci_prefix [] t = True"
| "ci_prefix (p # ps) [] = False"
| "ci_prefix (p # ps) (c # cs) = (ci_eq p c \<and> ci_prefix ps cs)"

fun match_here :: "atom list \<Rightarrow> bool \<Rightarrow> string \<Rightarrow> bool" where
  "match_here [] dollar t = (\<not> dollar \<or> t = [] \<or> t = [CHR 0x0A])"
| "match_here (Lit s # as) dollar t =
     (ci_prefix s t \<and> match_here as dollar (drop (length s) t))"
| "match_here (OneOf alts # as) dollar t =
     list_ex (\<lambda>s. ci_prefix s t \<and> match_here as dollar (drop (length s) t)) alts"
| "match_here (Digits # as) dollar t =
     list_ex (\<lambda>n. match_here as dollar (drop n t))
       [1 ..< Suc (length (takeWhile is_digit t))]"

fun search_from :: "atom list \<Rightarrow> bool \<Rightarrow> string \<Rightarrow> bool" where
  "search_from as dollar [] = match_here as dollar []"
| "search_from as dollar (c # cs) =
     (match_here as dollar (c # cs) \<or> search_from as dollar cs)"

fun re_search :: "noise_re \<Rightarrow> string \<Rightarrow> bool" where
  "re_search (Re caret body dollar) t =
     (if caret then match_here body dollar t else search_from body dollar t)"

definition NOISE_RE :: "noise_re list" where
  "NOISE_RE =
   [ Re True [Lit ''lorem ipsum''] False,
     Re True [Lit ''food drinks wines''] False,
     Re True [Lit ''drinks wines''] False,
     Re True [Lit ''wines all drinks''] False,
     Re True [Lit ''cake events''] False,
     Re True [Lit ''food / food''] False,
     Re True [Lit ''drinks / drinks''] False,
     Re True [Lit ''wines / wines''] False,
     Re True [Lit ''cake / cake''] False,
     Re True [Lit ''contact us sed''] False,
     Re True [Lit ''/ '', OneOf [''food'', ''drinks'', ''wines'', ''cake'', ''events'']] False,
     Re True [Lit ''follow us''] True,
     Re True [Lit ''view menu''] True,
     Re True [Lit ''see more''] True,
     Re True [Lit ''all drinks''] True,
     Re True [Lit ''events''] True,
     Re True [Lit ''gallery''] True,
     Re True [Lit ''contact us''] True,
     Re True [Lit ''food menu''] True,
     Re True [Lit ''drinks menu''] True,
     Re True [Lit ''cake menu''] True,
     Re True [Lit ''exquisite recipes''] True,
     Re True [Lit ''specials''] True,
     Re True [Lit ''cocktail''] True,
     Re True [Lit (''o'' @ [CHR 0x27] @ ''clock'')] True,
     Re True [Lit ''search''] True,
     Re True [Lit ''menu''] True,
     Re True [Lit ''home''] True,
     Re True [Lit ''food''] True,
     Re True [Lit ''drinks''] True,
     Re True [Lit ''wines''] True,
     Re True [Lit ''cake''] True,
     Re True [Lit ''designed by''] False,
     Re True [Lit ''copyright''] False,
     Re False [Lit [CHR 0xA9]] False,
     Re False [Lit ''designed by fortitude''] False,
     Re True [Lit ''sed tincidunt''] False,
     Re True [Lit ''get in touch''] False,
     Re True [Lit ''opening hours''] False,
     Re True [Lit ''reservation''] True,
     Re True [Lit ''book a table''] False,
     Re True [Lit ''make a reservation''] False,
     Re True [Digits] True ]"

definition is_noise :: "string \<Rightarrow> bool" where
  "is_noise text =
     (let t = strip text
      in if length t < 15 then True
         else if list_ex (\<lambda>r. re_search r t) NOISE_RE then True
         else if sublist ''Food Drinks Wines All Drinks Cake Events'' t then True
         else False)"

section \<open>app.py: the normalizer\<close>

text \<open>
  \<open>preprocess\<close> calls three parts of NLTK: \<open>word_tokenize\<close>, the English stopword
  list and \<open>WordNetLemmatizer.lemmatize\<close>. Their code and data are not part of the
  repository; the model takes them as the fields of a record, and \<open>preprocess\<close> is
  defined over any such record.
\<close>

datatype pos = Verb | Noun

record nltk =
  word_tokenize :: "string \<Rightarrow> string list"
  stop_words :: "string set"
  lemmatize :: "string \<Rightarrow> pos \<Rightarrow> string"

definition sub_non_letters :: "string \<Rightarrow> string" where
  \<comment> \<open>\<open>re.sub(r'[^a-z\s]', ' ', text)\<close>\<close>
  "sub_non_letters s = map (\<lambda>c. if \<not> (is_az c \<or> isspace c) then CHR '' '' else c) s"

function sub_spaces :: "string \<Rightarrow> string" where
  \<comment> \<open>\<open>re.sub(r'\s+', ' ', text)\<close>: every maximal run of whitespace becomes one space\<close>
  "sub_spaces [] = []"
| "sub_spaces (c # cs) =
     (if isspace c then CHR '' '' # sub_spaces (dropWhile isspace cs)
      else c # sub_spaces cs)"
  by pat_completeness auto
termination
  by (relation "measure length") (auto simp: length_dropWhile_le less_Suc_eq_le)

definition cleaned :: "string \<Rightarrow> string" where
  \<comment> \<open>the value of \<open>text\<close> after the first three statements of \<open>preprocess\<close>\<close>
  "cleaned text0 = strip (sub_spaces (sub_non_letters (lower text0)))"

definition preprocess :: "nltk \<Rightarrow> string \<Rightarrow> string" where
  "preprocess L text0 =
     (let text1 = lower text0;
          text2 = sub_non_letters text1;
          text3 = strip (sub_spaces text2);
          tokens0 = word_tokenize L text3;
          tokens1 = [t \<leftarrow> tokens0. t \<notin> stop_words L \<and> length t > 2];
          tokens2 = [lemmatize L t Verb. t \<leftarrow> tokens1];
          tokens3 = [lemmatize L t Noun. t \<leftarrow> tokens2]
      in join '' '' tokens3)"

subsection \<open>The normalizer as the specification words it\<close>

text \<open>
  The seven steps of the specification, one definition each, written from its words:
  lowercase; replace what is neither a lowercase letter nor whitespace by a space;
  collapse consecutive whitespace to one space and trim; split into tokens; remove the
  tokens that are stopwords or have length at most 2; lemmatize each token as a verb and
  the result as a noun; rejoin with single spaces.
\<close>

definition spec_replace :: "string \<Rightarrow> string" where
  "spec_replace s = map (\<lambda>c. if is_az c \<or> isspace c then c else CHR '' '') s"

fun spec_collapse :: "string \<Rightarrow> string" where
  "spec_collapse [] = []"
| "spec_collapse [a] = [if isspace a then CHR '' '' else a]"
| "spec_collapse (a # b # cs) =
     (if isspace a \<and> isspace b then spec_collapse (b # cs)
      else (if isspace a then CHR '' '' else a) # spec_collapse (b # cs))"

definition spec_trim :: "string \<Rightarrow> string" where
  "spec_trim s =
     (let s1 = dropWhile isspace s
      in take (length s1 - length (takeWhile isspace (rev s1))) s1)"

definition spec_remove :: "nltk \<Rightarrow> string list \<Rightarrow> string list" where
  "spec_remove L ts = filter (\<lambda>t. \<not> (t \<in> stop_words L \<or> length t \<le> 2)) ts"

definition spec_lemma :: "nltk \<Rightarrow> string \<Rightarrow> string" where
  "spec_lemma L t = lemmatize L (lemmatize L t Verb) Noun"

definition spec_rejoin :: "string list \<Rightarrow> string" where
  "spec_rejoin ts =
     (case ts of [] \<Rightarrow> [] | t # us \<Rightarrow> t @ concat (map (\<lambda>u. CHR '' '' # u) us))"

definition normalize_spec :: "nltk \<Rightarrow> string \<Rightarrow> string" where
  "normalize_spec L raw =
     spec_rejoin (map (spec_lemma L)
       (spec_remove L (word_tokenize L (spec_trim (spec_collapse (spec_replace (lower raw)))))))"

subsection \<open>A small instance of the library\<close>

text \<open>
  An instance used to run \<open>preprocess\<close> on examples. It is an assumption about the
  library, not a transcription of it: the tokenizer splits at whitespace, the stopword
  set holds eight words, and the lemmatizer maps \<open>went\<close> to \<open>go\<close> and \<open>cooking\<close> to
  \<open>cook\<close> as verbs, \<open>chefs\<close> to \<open>chef\<close> and \<open>meals\<close> to \<open>meal\<close> as nouns, and every
  other word to itself. These values are the ones NLTK is expected to give for these
  words; NLTK's code and data are outside the repository, so the agreement is not
  established here. Theorems stated for every record \<open>L\<close> do not depend on it; the
  examples evaluated on \<open>demo_nltk\<close> do.
\<close>

fun split_acc :: "string \<Rightarrow> string \<Rightarrow> string list" where
  "split_acc cur [] = (if cur = [] then [] else [cur])"
| "split_acc cur (c # cs) =
     (if isspace c then (if cur = [] then split_acc [] cs else cur # split_acc [] cs)
      else split_acc (cur @ [c]) cs)"

definition split_tokenize :: "string \<Rightarrow> string list" where
  "split_tokenize s = split_acc [] s"

fun demo_lemmatize :: "string \<Rightarrow> pos \<Rightarrow> string" where
  "demo_lemmatize w Verb =
     (if w = ''went'' then ''go'' else if w = ''cooking'' then ''cook'' else w)"
| "demo_lemmatize w Noun =
     (if w = ''chefs'' then ''chef'' else if w = ''meals'' then ''meal'' else w)"

definition demo_nltk :: nltk where
  "demo_nltk =
     \<lparr> word_tokenize = split_tokenize,
       stop_words = {''the'', ''were'', ''to'', ''a'', ''in'', ''it'', ''at'', ''be''},
       lemmatize = demo_lemmatize \<rparr>"

section \<open>app.py: classification and the Classify button\<close>

text \<open>
  The vectorizer and the classifier are loaded artefacts. The vectorizer is a function
  from the processed text to a vector; the classifier has \<open>predict\<close>, \<open>classes_\<close> and,
  when it has the attribute, \<open>predict_proba\<close>. Probabilities are only compared
  (\<open>max\<close>, \<open>sorted\<close>), so their type is any linear order. What the function does is
  the list of the calls to the artefacts and to Streamlit, in order; a display event
  carries the values that the call formats.
\<close>

datatype py_error = ValueError

record ('v, 'p) classifier =
  predict :: "'v \<Rightarrow> string"
  predict_proba :: "('v \<Rightarrow> 'p list) option"
  classes :: "string list"

datatype ('v, 'p) event =
    Transform string
  | Predict 'v
  | PredictProba 'v
  | Success string
  | Markdown string
  | Confidence 'p
  | Progress string 'p
  | Warning string

definition CATEGORY_INFO :: "(string \<times> string) list" where
  "CATEGORY_INFO =
   [ (''food'', ''Food Menu - This text describes a food or meal item''),
     (''drinks'', ''Drinks Menu - This text describes a beverage or cocktail''),
     (''wines'', ''Wine List - This text describes a wine selection''),
     (''cake'', ''Cake Menu - This text describes a cake or bakery item''),
     (''reviews'', ''Customer Review - This text sounds like a customer review''),
     (''services'', ''Services - This text describes a restaurant service''),
     (''about'', ''About / Description - This text describes the restaurant''),
     (''home'', ''General Info - General restaurant information''),
     (''contact'', ''Contact / Location - Location or contact information''),
     (''events'', ''Events - Event-related information'') ]"

definition category_info_get :: "string \<Rightarrow> string" where
  \<comment> \<open>\<open>CATEGORY_INFO.get(prediction, prediction)\<close>\<close>
  "category_info_get prediction =
     (case map_of CATEGORY_INFO prediction of None \<Rightarrow> prediction | Some d \<Rightarrow> d)"

fun py_max :: "'p::linorder list \<Rightarrow> 'p option" where
  \<comment> \<open>\<open>max(proba)\<close>; \<open>None\<close> is the \<open>ValueError\<close> on an empty sequence\<close>
  "py_max [] = None"
| "py_max (x # xs) = Some (foldl (\<lambda>m y. if m < y then y else m) x xs)"

definition sorted_reverse :: "('a \<Rightarrow> 'p::linorder) \<Rightarrow> 'a list \<Rightarrow> 'a list" where
  \<comment> \<open>\<open>sorted(xs, key=f, reverse=True)\<close>: stable, equal keys keep their order\<close>
  "sorted_reverse f xs = rev (sort_key f (rev xs))"

definition classify_text ::
  "nltk \<Rightarrow> (string \<Rightarrow> 'v) \<Rightarrow> ('v, 'p::linorder) classifier \<Rightarrow> string
     \<Rightarrow> ('v, 'p) event list \<times> py_error option" where
  "classify_text L tfidf model text0 =
     (let processed = preprocess L text0;
          vec = tfidf processed;
          prediction = predict model vec;
          calls = [Transform processed, Predict vec]
      in case predict_proba model of
           Some f \<Rightarrow>
             (let proba = f vec
              in case py_max proba of
                   None \<Rightarrow> (calls @ [PredictProba vec], Some ValueError)
                 | Some confidence \<Rightarrow>
                     (calls @
                      [PredictProba vec,
                       Success prediction,
                       Markdown (category_info_get prediction),
                       Confidence confidence,
                       Markdown ''#### All Category Probabilities:''] @
                      map (\<lambda>(cls, prob). Progress cls prob)
                        (sorted_reverse snd (zip (classes model) proba)),
                      None))
         | None \<Rightarrow>
             (calls @ [Success prediction, Markdown (category_info_get prediction)], None))"

record session_state =
  input_text :: string

definition classify_button ::
  "nltk \<Rightarrow> (string \<Rightarrow> 'v) \<Rightarrow> ('v, 'p::linorder) classifier \<Rightarrow> session_state \<Rightarrow> string
     \<Rightarrow> session_state \<times> ('v, 'p) event list \<times> py_error option" where
  \<comment> \<open>the body of \<open>if st.button("Classify", type="primary")\<close>\<close>
  "classify_button L tfidf model st user_input =
     (if strip user_input \<noteq> [] then (st, classify_text L tfidf model user_input)
      else (st, [Warning ''Please enter some text to classify.''], None))"

definition shown_confidence :: "('v, 'p) event list \<Rightarrow> 'p list" where
  "shown_confidence evs = concat (map (\<lambda>e. case e of Confidence p \<Rightarrow> [p] | _ \<Rightarrow> []) evs)"

definition shown_distribution :: "('v, 'p) event list \<Rightarrow> (string \<times> 'p) list" where
  "shown_distribution evs =
     concat (map (\<lambda>e. case e of Progress c p \<Rightarrow> [(c, p)] | _ \<Rightarrow> []) evs)"

section \<open>scraper.py: deduplication and the CSV file\<close>

record row =
  source_page :: string
  category :: string
  item_name :: string
  description :: string
  price :: string

fun dedup_loop :: "string set \<Rightarrow> row list \<Rightarrow> row list \<Rightarrow> row list" where
  \<comment> \<open>the loop \<open>for row in all_data\<close> with its two variables \<open>seen\<close> and \<open>unique_data\<close>\<close>
  "dedup_loop seen unique_data [] = unique_data"
| "dedup_loop seen unique_data (r # all_data) =
     (let desc = lower (strip (description r))
      in if desc \<notin> seen \<and> length desc > 5
         then dedup_loop (insert desc seen) (unique_data @ [r]) all_data
         else dedup_loop seen unique_data all_data)"

definition remove_duplicates :: "row list \<Rightarrow> row list" where
  \<comment> \<open>\<open>seen = set(); unique_data = []\<close>, then the loop\<close>
  "remove_duplicates all_data = dedup_loop {} [] all_data"

definition desc_key :: "row \<Rightarrow> string" where
  \<comment> \<open>\<open>row["description"].strip().lower()\<close>\<close>
  "desc_key r = lower (strip (description r))"

text \<open>
  Writing the file. \<open>open_error\<close> says what \<open>open(filename, "w")\<close> raises for each
  path, if anything; \<open>opened\<close> records the paths that were opened for writing, in order;
  a written file holds the header and the rows passed to the writer.
\<close>

datatype os_error = PermissionError | OtherOSError

datatype line = Saved nat string | Locked | Total nat

record world =
  open_error :: "string \<Rightarrow> os_error option"
  opened :: "string list"
  files :: "string \<Rightarrow> (string list \<times> row list) option"
  stdout :: "line list"

definition fieldnames :: "string list" where
  "fieldnames = [''source_page'', ''category'', ''item_name'', ''description'', ''price'']"

definition save_to_csv :: "row list \<Rightarrow> string \<Rightarrow> world \<Rightarrow> (os_error + unit) \<times> world" where
  "save_to_csv rows filename w =
     (let w1 = w\<lparr>opened := opened w @ [filename]\<rparr>
      in case open_error w filename of
           Some e \<Rightarrow> (Inl e, w1)
         | None \<Rightarrow>
             (Inr (),
              w1\<lparr>files := (files w1)(filename \<mapsto> (fieldnames, rows)),
                 stdout := stdout w1 @ [Saved (length rows) filename]\<rparr>))"

definition write_csv :: "row list \<Rightarrow> world \<Rightarrow> (os_error + unit) \<times> world" where
  \<comment> \<open>the \<open>try\<close> statement at the end of the script and the final \<open>print\<close>\<close>
  "write_csv unique_data w =
     (case save_to_csv unique_data ''Omoding.csv'' w of
        (Inr u, w1) \<Rightarrow> (Inr (), w1\<lparr>stdout := stdout w1 @ [Total (length unique_data)]\<rparr>)
      | (Inl PermissionError, w1) \<Rightarrow>
          (case save_to_csv unique_data ''Omoding_new.csv'' (w1\<lparr>stdout := stdout w1 @ [Locked]\<rparr>) of
             (Inr u, w2) \<Rightarrow> (Inr (), w2\<lparr>stdout := stdout w2 @ [Total (length unique_data)]\<rparr>)
           | (Inl e, w2) \<Rightarrow> (Inl e, w2))
      | (Inl e, w1) \<Rightarrow> (Inl e, w1))"

definition mk_row :: "string \<Rightarrow> row" where
  \<comment> \<open>a row of the \<open>food\<close> page with the given description, for the examples\<close>
  "mk_row d =
     \<lparr> source_page = ''food'', category = ''menu_item'', item_name = [],
       description = d, price = [] \<rparr>"

definition locked_world :: "os_error option \<Rightarrow> world" where
  \<comment> \<open>a world where \<open>Omoding.csv\<close> is locked and opening \<open>Omoding_new.csv\<close> has the given outcome\<close>
  "locked_world fallback =
     \<lparr> open_error = (\<lambda>p. if p = ''Omoding.csv'' then Some PermissionError
                         else if p = ''Omoding_new.csv'' then fallback else None),
       opened = [],
       files = (\<lambda>p. None),
       stdout = [] \<rparr>"

definition demo_tfidf :: "string \<Rightarrow> nat" where
  \<comment> \<open>a stand-in vectorizer for the examples\<close>
  "demo_tfidf processed = length processed"

definition demo_model :: "(nat, real) classifier" where
  \<comment> \<open>a stand-in classifier with three classes that has \<open>predict_proba\<close>\<close>
  "demo_model =
     \<lparr> predict = (\<lambda>vec. ''food''),
       predict_proba = Some (\<lambda>vec. [0.2, 0.7, 0.1]),
       classes = [''drinks'', ''food'', ''wines''] \<rparr>"

definition demo_model_plain :: "(nat, real) classifier" where
  \<comment> \<open>the same classifier without \<open>predict_proba\<close>\<close>
  "demo_model_plain = demo_model\<lparr>predict_proba := None\<rparr>"

definition clean_text :: "string \<Rightarrow> string" where
  \<comment> \<open>\<open>clean_text\<close>: the six \<open>replace\<close> calls act on U+2018, U+2019, U+201C, U+201D,
      U+2013 and U+2014, which are above U+00FF and do not occur in the modelled strings;
      what remains is the whitespace substitution and \<open>strip\<close>\<close>
  "clean_text s = (if s = [] then [] else strip (sub_spaces s))"

definition scraped_row :: "string \<Rightarrow> string \<Rightarrow> string \<Rightarrow> row" where
  \<comment> \<open>the dictionary that \<open>scrape_home\<close>, \<open>scrape_menu_page\<close> and \<open>scrape_contact\<close> append
      for a text with \<open>text and not is_noise(text)\<close>, \<open>text\<close> being \<open>clean_text\<close> of
      the element's text\<close>
  "scraped_row page cat txt =
     \<lparr> source_page = page, category = cat, item_name = [],
       description = txt, price = [] \<rparr>"

section \<open>Properties of the string functions\<close>

lemma length_strip_le: "length (strip s) \<le> length s"
proof -
  have "length (strip s) \<le> length (rev (dropWhile isspace s))"
    unfolding strip_def by (metis length_dropWhile_le length_rev)
  also have "\<dots> \<le> length s"
    by (simp add: length_dropWhile_le)
  finally show ?thesis .
qed

lemma dropWhile_keeps:
  "\<not> P x \<Longrightarrow> dropWhile P (ps @ x # xs) = dropWhile P ps @ x # xs"
  by (induction ps) simp_all

lemma strip_middle:
  assumes x: "\<not> isspace x" and y: "\<not> isspace y"
  shows "strip (ps @ x # xs @ y # ss)
         = dropWhile isspace ps @ x # xs @ y # rev (dropWhile isspace (rev ss))"
proof -
  have 1: "dropWhile isspace (ps @ x # xs @ y # ss) = dropWhile isspace ps @ x # xs @ y # ss"
    using x by (rule dropWhile_keeps)
  have 2: "dropWhile isspace (rev ss @ y # (rev xs @ x # rev (dropWhile isspace ps)))
           = dropWhile isspace (rev ss) @ y # (rev xs @ x # rev (dropWhile isspace ps))"
    using y by (rule dropWhile_keeps)
  have "rev (dropWhile isspace ps @ x # xs @ y # ss)
        = rev ss @ y # (rev xs @ x # rev (dropWhile isspace ps))"
    by simp
  then show ?thesis
    unfolding strip_def 1 by (simp only: 2) simp
qed

lemma sublist_strip:
  assumes sub: "sublist (x # xs @ [y]) t" and x: "\<not> isspace x" and y: "\<not> isspace y"
  shows "sublist (x # xs @ [y]) (strip t)"
proof -
  from sub obtain ps ss where "t = ps @ (x # xs @ [y]) @ ss"
    unfolding sublist_def by blast
  then have t: "t = ps @ x # xs @ y # ss" by simp
  have "strip t = dropWhile isspace ps @ (x # xs @ [y]) @ rev (dropWhile isspace (rev ss))"
    unfolding t strip_middle [OF x y] by simp
  then show ?thesis
    unfolding sublist_def by blast
qed

section \<open>The noise filter\<close>

text \<open>
  C8. A string shorter than 15 characters is noise, whatever it holds: stripping cannot
  make it longer, and the length test comes first.
\<close>

theorem is_noise_short: "length text < 15 \<Longrightarrow> is_noise text"
proof -
  assume short: "length text < 15"
  have "length (strip text) \<le> length text"
    by (rule length_strip_le)
  with short have "length (strip text) < 15"
    by simp
  then show "is_noise text"
    by (simp add: is_noise_def)
qed

theorem is_noise_short_witness:
  "length ''Grilled salmon'' < 15 \<and> is_noise ''Grilled salmon''"
  using is_noise_short [of "''Grilled salmon''"] by simp

text \<open>
  C10. A string that holds the navigation bar text
  \<open>Food Drinks Wines All Drinks Cake Events\<close> anywhere is noise, whatever its length
  and whether or not a pattern of \<open>NOISE_RE\<close> matches: the text starts and ends with a
  letter, so stripping keeps it, and each of the three tests of \<open>is_noise\<close> that can
  fire returns true.
\<close>

theorem is_noise_nav_bar:
  "sublist ''Food Drinks Wines All Drinks Cake Events'' s \<Longrightarrow> is_noise s"
proof -
  assume a: "sublist ''Food Drinks Wines All Drinks Cake Events'' s"
  have e: "''Food Drinks Wines All Drinks Cake Events''
           = CHR ''F'' # ''ood Drinks Wines All Drinks Cake Event'' @ [CHR ''s'']"
    by simp
  have "sublist (CHR ''F'' # ''ood Drinks Wines All Drinks Cake Event'' @ [CHR ''s'']) (strip s)"
  proof (rule sublist_strip)
    show "sublist (CHR ''F'' # ''ood Drinks Wines All Drinks Cake Event'' @ [CHR ''s'']) s"
      using a unfolding e .
    show "\<not> isspace CHR ''F''" by (simp add: isspace_def)
    show "\<not> isspace CHR ''s''" by (simp add: isspace_def)
  qed
  then have "sublist ''Food Drinks Wines All Drinks Cake Events'' (strip s)"
    unfolding e .
  then show "is_noise s"
    unfolding is_noise_def Let_def by (simp only: if_True if_cancel)
qed

theorem is_noise_nav_bar_witness:
  "sublist ''Food Drinks Wines All Drinks Cake Events''
     ''Welcome to Food Drinks Wines All Drinks Cake Events today''
   \<and> \<not> length (strip ''Welcome to Food Drinks Wines All Drinks Cake Events today'') < 15
   \<and> \<not> list_ex (\<lambda>r. re_search r (strip ''Welcome to Food Drinks Wines All Drinks Cake Events today'')) NOISE_RE
   \<and> is_noise ''Welcome to Food Drinks Wines All Drinks Cake Events today''"
proof -
  have s: "sublist ''Food Drinks Wines All Drinks Cake Events''
     ''Welcome to Food Drinks Wines All Drinks Cake Events today''"
    by code_simp
  have l: "\<not> length (strip ''Welcome to Food Drinks Wines All Drinks Cake Events today'') < 15"
    by code_simp
  have r: "\<not> list_ex (\<lambda>r. re_search r (strip ''Welcome to Food Drinks Wines All Drinks Cake Events today'')) NOISE_RE"
    by code_simp
  from s l r is_noise_nav_bar [OF s] show ?thesis by (intro conjI)
qed

section \<open>Deduplication\<close>

lemma dedup_loop_acc: "dedup_loop seen acc rows = acc @ dedup_loop seen [] rows"
proof (induction rows arbitrary: seen acc)
  case Nil
  show ?case by simp
next
  case (Cons r rows)
  show ?case
    using Cons.IH [of "insert (lower (strip (description r))) seen" "acc @ [r]"]
          Cons.IH [of "insert (lower (strip (description r))) seen" "[r]"]
          Cons.IH [of seen acc]
    by (simp add: Let_def)
qed

lemma dedup_loop_Cons:
  "dedup_loop seen [] (r # rows) =
     (if desc_key r \<notin> seen \<and> 5 < length (desc_key r)
      then r # dedup_loop (insert (desc_key r) seen) [] rows
      else dedup_loop seen [] rows)"
  using dedup_loop_acc [of "insert (desc_key r) seen" "[r]" rows]
  by (simp add: Let_def desc_key_def)

lemma dedup_loop_keys:
  "r \<in> set (dedup_loop seen [] rows) \<Longrightarrow>
     r \<in> set rows \<and> desc_key r \<notin> seen \<and> 5 < length (desc_key r)"
proof (induction rows arbitrary: seen)
  case Nil
  then show ?case by simp
next
  case (Cons a rows)
  then show ?case
    by (auto simp: dedup_loop_Cons simp del: dedup_loop.simps(2) split: if_splits)
qed

lemma dedup_loop_distinct: "distinct (map desc_key (dedup_loop seen [] rows))"
proof (induction rows arbitrary: seen)
  case Nil
  show ?case by simp
next
  case (Cons a rows)
  have "desc_key a \<notin> desc_key ` set (dedup_loop (insert (desc_key a) seen) [] rows)"
    using dedup_loop_keys [of _ "insert (desc_key a) seen" rows] by fastforce
  with Cons.IH show ?case
    by (simp add: dedup_loop_Cons del: dedup_loop.simps(2))
qed

lemma dedup_loop_subseq: "subseq (dedup_loop seen [] rows) rows"
  by (induction rows arbitrary: seen)
     (auto simp: dedup_loop_Cons simp del: dedup_loop.simps(2))

lemma dedup_loop_filter:
  "filter (\<lambda>r. desc_key r = k) (dedup_loop seen [] rows) =
     (if k \<notin> seen \<and> 5 < length k
      then (case find (\<lambda>r. desc_key r = k) rows of None \<Rightarrow> [] | Some r \<Rightarrow> [r])
      else [])"
proof (induction rows arbitrary: seen)
  case Nil
  show ?case by simp
next
  case (Cons a rows)
  show ?case
    using Cons.IH [of seen] Cons.IH [of "insert (desc_key a) seen"]
    by (auto simp: dedup_loop_Cons simp del: dedup_loop.simps(2))
qed

text \<open>
  C7. In the output of the deduplication no two rows have the same normalized
  description, and no row whose normalized description has at most 5 characters is
  kept. For every normalized description \<open>k\<close> longer than 5 characters, the rows of the
  output with that description are exactly the first row of the input with it (none if
  the input has none). The output is a subsequence of the input: the surviving rows
  keep their relative order.
\<close>

theorem remove_duplicates_invariant:
  "distinct (map desc_key (remove_duplicates rows))
   \<and> (\<forall>r \<in> set rows. length (desc_key r) \<le> 5 \<longrightarrow> r \<notin> set (remove_duplicates rows))
   \<and> (\<forall>k. 5 < length k \<longrightarrow>
          filter (\<lambda>r. desc_key r = k) (remove_duplicates rows)
          = (case find (\<lambda>r. desc_key r = k) rows of None \<Rightarrow> [] | Some r \<Rightarrow> [r]))
   \<and> subseq (remove_duplicates rows) rows"
proof (intro conjI)
  show "distinct (map desc_key (remove_duplicates rows))"
    unfolding remove_duplicates_def by (rule dedup_loop_distinct)
  show "\<forall>r \<in> set rows. length (desc_key r) \<le> 5 \<longrightarrow> r \<notin> set (remove_duplicates rows)"
    unfolding remove_duplicates_def using dedup_loop_keys [of _ "{}" rows] by fastforce
  show "\<forall>k. 5 < length k \<longrightarrow>
          filter (\<lambda>r. desc_key r = k) (remove_duplicates rows)
          = (case find (\<lambda>r. desc_key r = k) rows of None \<Rightarrow> [] | Some r \<Rightarrow> [r])"
    unfolding remove_duplicates_def by (simp add: dedup_loop_filter)
  show "subseq (remove_duplicates rows) rows"
    unfolding remove_duplicates_def by (rule dedup_loop_subseq)
qed

theorem remove_duplicates_invariant_witness:
  "distinct (map desc_key (remove_duplicates
      [mk_row ''Grilled Salmon'', mk_row ''Cake'', mk_row '' grilled salmon '', mk_row ''Red Velvet'']))
   \<and> length (desc_key (mk_row ''Cake'')) \<le> 5
   \<and> mk_row ''Cake'' \<notin> set (remove_duplicates
      [mk_row ''Grilled Salmon'', mk_row ''Cake'', mk_row '' grilled salmon '', mk_row ''Red Velvet''])
   \<and> 5 < length ''grilled salmon''
   \<and> filter (\<lambda>r. desc_key r = ''grilled salmon'') (remove_duplicates
      [mk_row ''Grilled Salmon'', mk_row ''Cake'', mk_row '' grilled salmon '', mk_row ''Red Velvet''])
     = [mk_row ''Grilled Salmon'']
   \<and> remove_duplicates
      [mk_row ''Grilled Salmon'', mk_row ''Cake'', mk_row '' grilled salmon '', mk_row ''Red Velvet'']
     = [mk_row ''Grilled Salmon'', mk_row ''Red Velvet'']"
proof -
  let ?rows = "[mk_row ''Grilled Salmon'', mk_row ''Cake'', mk_row '' grilled salmon '', mk_row ''Red Velvet'']"
  have len: "length (desc_key (mk_row ''Cake'')) \<le> 5"
    by code_simp
  have mem: "mk_row ''Cake'' \<in> set ?rows"
    by simp
  have fnd: "find (\<lambda>r. desc_key r = ''grilled salmon'') ?rows = Some (mk_row ''Grilled Salmon'')"
    by code_simp
  have out: "remove_duplicates ?rows = [mk_row ''Grilled Salmon'', mk_row ''Red Velvet'']"
    by code_simp
  have l2: "5 < length ''grilled salmon''"
    by simp
  from remove_duplicates_invariant [of ?rows]
  have d: "distinct (map desc_key (remove_duplicates ?rows))"
    and s: "\<forall>r \<in> set ?rows. length (desc_key r) \<le> 5 \<longrightarrow> r \<notin> set (remove_duplicates ?rows)"
    and f: "\<forall>k. 5 < length k \<longrightarrow>
          filter (\<lambda>r. desc_key r = k) (remove_duplicates ?rows)
          = (case find (\<lambda>r. desc_key r = k) ?rows of None \<Rightarrow> [] | Some r \<Rightarrow> [r])"
    by blast+
  from s mem len have nm: "mk_row ''Cake'' \<notin> set (remove_duplicates ?rows)"
    by blast
  from f l2 have "filter (\<lambda>r. desc_key r = ''grilled salmon'') (remove_duplicates ?rows)
          = (case find (\<lambda>r. desc_key r = ''grilled salmon'') ?rows of None \<Rightarrow> [] | Some r \<Rightarrow> [r])"
    by blast
  then have fl: "filter (\<lambda>r. desc_key r = ''grilled salmon'') (remove_duplicates ?rows)
          = [mk_row ''Grilled Salmon'']"
    unfolding fnd by simp
  from d len nm l2 fl out show ?thesis
    by (intro conjI)
qed

lemma find_append_Some:
  "find P xs = Some x \<Longrightarrow> find P (xs @ ys) = Some x"
  by (induction xs) (auto split: if_splits)

lemma dedup_later_rows:
  "find (\<lambda>r. desc_key r = k) xs = Some x \<Longrightarrow>
     filter (\<lambda>r. desc_key r = k) (remove_duplicates (xs @ ys))
       = filter (\<lambda>r. desc_key r = k) (remove_duplicates xs)"
  unfolding remove_duplicates_def dedup_loop_filter
  by (simp add: find_append_Some)

text \<open>
  C6. Two rows whose descriptions differ only in letter case or whitespace need not
  leave exactly one of the two in the output. The rows below are rows that the scrape
  functions append: \<open>clean_text\<close> leaves each description as it is and \<open>is_noise\<close>
  is false of it. First, the same sentence scraped from three pages in three spellings:
  the first row is kept, and of the second and third, which differ only in letter case,
  neither is. Second, two descriptions that differ only in one space: the keys differ
  and both rows are kept. By \<open>dedup_later_rows\<close>, rows that follow in the input (the
  literal rows are appended after the scraped ones) do not change which rows with these
  keys are kept.
\<close>

theorem dedup_case_whitespace_counterexample:
  "remove_duplicates
      [scraped_row ''home'' ''description'' ''Welcome to The Hickory Kampala'',
       scraped_row ''food'' ''Food'' ''welcome to the hickory kampala'',
       scraped_row ''drinks'' ''Drinks'' ''WELCOME TO THE HICKORY KAMPALA'']
     = [scraped_row ''home'' ''description'' ''Welcome to The Hickory Kampala'']
   \<and> clean_text ''Welcome to The Hickory Kampala'' = ''Welcome to The Hickory Kampala''
   \<and> clean_text ''welcome to the hickory kampala'' = ''welcome to the hickory kampala''
   \<and> clean_text ''WELCOME TO THE HICKORY KAMPALA'' = ''WELCOME TO THE HICKORY KAMPALA''
   \<and> \<not> is_noise ''Welcome to The Hickory Kampala''
   \<and> \<not> is_noise ''welcome to the hickory kampala''
   \<and> \<not> is_noise ''WELCOME TO THE HICKORY KAMPALA''
   \<and> lower ''welcome to the hickory kampala'' = lower ''WELCOME TO THE HICKORY KAMPALA''
   \<and> remove_duplicates
        [scraped_row ''cake'' ''Cake'' ''Freshly baked cheese cake slices'',
         scraped_row ''cake'' ''Cake'' ''Freshly baked cheesecake slices'']
     = [scraped_row ''cake'' ''Cake'' ''Freshly baked cheese cake slices'',
        scraped_row ''cake'' ''Cake'' ''Freshly baked cheesecake slices'']
   \<and> clean_text ''Freshly baked cheese cake slices'' = ''Freshly baked cheese cake slices''
   \<and> clean_text ''Freshly baked cheesecake slices'' = ''Freshly baked cheesecake slices''
   \<and> \<not> is_noise ''Freshly baked cheese cake slices''
   \<and> \<not> is_noise ''Freshly baked cheesecake slices''"
proof (intro conjI)
  show "remove_duplicates
      [scraped_row ''home'' ''description'' ''Welcome to The Hickory Kampala'',
       scraped_row ''food'' ''Food'' ''welcome to the hickory kampala'',
       scraped_row ''drinks'' ''Drinks'' ''WELCOME TO THE HICKORY KAMPALA'']
     = [scraped_row ''home'' ''description'' ''Welcome to The Hickory Kampala'']"
    by code_simp
  show "clean_text ''Welcome to The Hickory Kampala'' = ''Welcome to The Hickory Kampala''"
    by code_simp
  show "clean_text ''welcome to the hickory kampala'' = ''welcome to the hickory kampala''"
    by code_simp
  show "clean_text ''WELCOME TO THE HICKORY KAMPALA'' = ''WELCOME TO THE HICKORY KAMPALA''"
    by code_simp
  show "\<not> is_noise ''Welcome to The Hickory Kampala''"
    by code_simp
  show "\<not> is_noise ''welcome to the hickory kampala''"
    by code_simp
  show "\<not> is_noise ''WELCOME TO THE HICKORY KAMPALA''"
    by code_simp
  show "lower ''welcome to the hickory kampala'' = lower ''WELCOME TO THE HICKORY KAMPALA''"
    by code_simp
  show "remove_duplicates
        [scraped_row ''cake'' ''Cake'' ''Freshly baked cheese cake slices'',
         scraped_row ''cake'' ''Cake'' ''Freshly baked cheesecake slices'']
     = [scraped_row ''cake'' ''Cake'' ''Freshly baked cheese cake slices'',
        scraped_row ''cake'' ''Cake'' ''Freshly baked cheesecake slices'']"
    by code_simp
  show "clean_text ''Freshly baked cheese cake slices'' = ''Freshly baked cheese cake slices''"
    by code_simp
  show "clean_text ''Freshly baked cheesecake slices'' = ''Freshly baked cheesecake slices''"
    by code_simp
  show "\<not> is_noise ''Freshly baked cheese cake slices''"
    by code_simp
  show "\<not> is_noise ''Freshly baked cheesecake slices''"
    by code_simp
qed

text \<open>
  C6, as the code has it. If two rows of the input have the same key (their
  descriptions are equal after \<open>strip()\<close> and \<open>lower()\<close>, that is, they differ only in
  letter case and in whitespace at the two ends), then the output holds exactly one row
  with that key when the key is longer than 5 characters, and none otherwise.
\<close>

theorem dedup_same_key:
  assumes "r1 \<in> set rows" and "r2 \<in> set rows" and "desc_key r1 = desc_key r2"
  shows "length (filter (\<lambda>r. desc_key r = desc_key r1) (remove_duplicates rows))
           = (if 5 < length (desc_key r1) then 1 else 0)
         \<and> length (filter (\<lambda>r. desc_key r = desc_key r2) (remove_duplicates rows))
           = (if 5 < length (desc_key r2) then 1 else 0)"
proof -
  have one: "length (filter (\<lambda>r. desc_key r = desc_key x) (remove_duplicates rows))
           = (if 5 < length (desc_key x) then 1 else 0)" if "x \<in> set rows" for x
  proof -
    from that obtain y where "find (\<lambda>r. desc_key r = desc_key x) rows = Some y"
      by (cases "find (\<lambda>r. desc_key r = desc_key x) rows") (auto simp: find_None_iff)
    then show ?thesis
      unfolding remove_duplicates_def by (simp add: dedup_loop_filter)
  qed
  from one [OF assms(1)] one [OF assms(2)] show ?thesis
    by (intro conjI)
qed

theorem dedup_same_key_witness:
  "mk_row ''Grilled Salmon'' \<in> set [mk_row ''Grilled Salmon'', mk_row '' grilled salmon '']
   \<and> mk_row '' grilled salmon '' \<in> set [mk_row ''Grilled Salmon'', mk_row '' grilled salmon '']
   \<and> desc_key (mk_row ''Grilled Salmon'') = desc_key (mk_row '' grilled salmon '')
   \<and> 5 < length (desc_key (mk_row ''Grilled Salmon''))
   \<and> length (filter (\<lambda>r. desc_key r = desc_key (mk_row ''Grilled Salmon''))
        (remove_duplicates [mk_row ''Grilled Salmon'', mk_row '' grilled salmon ''])) = 1"
proof -
  let ?a = "mk_row ''Grilled Salmon''" and ?b = "mk_row '' grilled salmon ''"
  have m1: "?a \<in> set [?a, ?b]" and m2: "?b \<in> set [?a, ?b]"
    by simp_all
  have k: "desc_key ?a = desc_key ?b"
    by code_simp
  have l: "5 < length (desc_key ?a)"
    by code_simp
  from dedup_same_key [OF m1 m2 k] l
  have "length (filter (\<lambda>r. desc_key r = desc_key ?a) (remove_duplicates [?a, ?b])) = 1"
    by simp
  with m1 m2 k l show ?thesis
    by (intro conjI)
qed

section \<open>Writing the CSV file\<close>

lemma save_to_csv_fails:
  "open_error w f = Some e \<Longrightarrow>
     save_to_csv rows f w = (Inl e, w\<lparr>opened := opened w @ [f]\<rparr>)"
  by (simp add: save_to_csv_def)

lemma save_to_csv_writes:
  "open_error w f = None \<Longrightarrow>
     save_to_csv rows f w =
       (Inr (), w\<lparr>opened := opened w @ [f],
                  files := (files w)(f \<mapsto> (fieldnames, rows)),
                  stdout := stdout w @ [Saved (length rows) f]\<rparr>)"
  by (simp add: save_to_csv_def)

text \<open>
  C9. When opening \<open>Omoding.csv\<close> for writing raises \<open>PermissionError\<close>, the script
  opens \<open>Omoding_new.csv\<close> once, and nothing else. If that works, the run ends normally
  and the fallback file holds the header and the same rows; if it raises, the error is
  the result of the run and no file was written.
\<close>

theorem write_csv_fallback:
  assumes locked: "open_error w ''Omoding.csv'' = Some PermissionError"
  shows "opened (snd (write_csv rows w)) = opened w @ [''Omoding.csv'', ''Omoding_new.csv'']
       \<and> (open_error w ''Omoding_new.csv'' = None \<longrightarrow>
            fst (write_csv rows w) = Inr ()
            \<and> files (snd (write_csv rows w)) ''Omoding_new.csv'' = Some (fieldnames, rows)
            \<and> files (snd (write_csv rows w)) ''Omoding.csv'' = files w ''Omoding.csv'')
       \<and> (\<forall>e. open_error w ''Omoding_new.csv'' = Some e \<longrightarrow>
            fst (write_csv rows w) = Inl e
            \<and> files (snd (write_csv rows w)) = files w)"
proof -
  let ?w1 = "w\<lparr>opened := opened w @ [''Omoding.csv'']\<rparr>"
  let ?w2 = "?w1\<lparr>stdout := stdout ?w1 @ [Locked]\<rparr>"
  have first: "save_to_csv rows ''Omoding.csv'' w = (Inl PermissionError, ?w1)"
    using locked by (rule save_to_csv_fails)
  have run: "write_csv rows w =
      (case save_to_csv rows ''Omoding_new.csv'' ?w2 of
         (Inr u, w3) \<Rightarrow> (Inr (), w3\<lparr>stdout := stdout w3 @ [Total (length rows)]\<rparr>)
       | (Inl e, w3) \<Rightarrow> (Inl e, w3))"
    unfolding write_csv_def first by simp
  show ?thesis
  proof (cases "open_error w ''Omoding_new.csv''")
    case None
    then have "open_error ?w2 ''Omoding_new.csv'' = None"
      by simp
    from save_to_csv_writes [OF this, of rows] show ?thesis
      unfolding run using None by simp
  next
    case (Some e)
    then have "open_error ?w2 ''Omoding_new.csv'' = Some e"
      by simp
    from save_to_csv_fails [OF this, of rows] show ?thesis
      unfolding run using Some by simp
  qed
qed

theorem write_csv_fallback_witness:
  "open_error (locked_world None) ''Omoding.csv'' = Some PermissionError
   \<and> open_error (locked_world None) ''Omoding_new.csv'' = None
   \<and> fst (write_csv [mk_row ''Grilled Salmon''] (locked_world None)) = Inr ()
   \<and> files (snd (write_csv [mk_row ''Grilled Salmon''] (locked_world None))) ''Omoding_new.csv''
       = Some (fieldnames, [mk_row ''Grilled Salmon''])
   \<and> opened (snd (write_csv [mk_row ''Grilled Salmon''] (locked_world None)))
       = [''Omoding.csv'', ''Omoding_new.csv'']
   \<and> open_error (locked_world (Some OtherOSError)) ''Omoding.csv'' = Some PermissionError
   \<and> open_error (locked_world (Some OtherOSError)) ''Omoding_new.csv'' = Some OtherOSError
   \<and> fst (write_csv [mk_row ''Grilled Salmon''] (locked_world (Some OtherOSError))) = Inl OtherOSError
   \<and> open_error (locked_world (Some PermissionError)) ''Omoding_new.csv'' = Some PermissionError
   \<and> fst (write_csv [mk_row ''Grilled Salmon''] (locked_world (Some PermissionError)))
       = Inl PermissionError
   \<and> opened (snd (write_csv [mk_row ''Grilled Salmon''] (locked_world (Some PermissionError))))
       = [''Omoding.csv'', ''Omoding_new.csv'']"
proof -
  have l: "open_error (locked_world fb) ''Omoding.csv'' = Some PermissionError" for fb
    by (simp add: locked_world_def)
  have f: "open_error (locked_world fb) ''Omoding_new.csv'' = fb" for fb
    by (simp add: locked_world_def)
  have o: "opened (locked_world fb) = []" for fb
    by (simp add: locked_world_def)
  from write_csv_fallback [OF l [of None], of "[mk_row ''Grilled Salmon'']"]
       write_csv_fallback [OF l [of "Some OtherOSError"], of "[mk_row ''Grilled Salmon'']"]
       write_csv_fallback [OF l [of "Some PermissionError"], of "[mk_row ''Grilled Salmon'']"]
  show ?thesis
    by (simp add: l f o)
qed

section \<open>Classification\<close>

lemma strip_blank: "(\<forall>c \<in> set s. isspace c) \<Longrightarrow> strip s = []"
proof -
  assume "\<forall>c \<in> set s. isspace c"
  then have d: "dropWhile isspace s = []"
    by simp
  show ?thesis
    unfolding strip_def d by simp
qed

text \<open>
  C4. When the text field is empty or holds only whitespace, pressing Classify shows
  the warning and does nothing else: no call to the vectorizer or to the classifier is
  made, nothing is raised, and the session state is the one before.
\<close>

theorem classify_button_blank:
  "(\<forall>c \<in> set user_input. isspace c) \<Longrightarrow>
     classify_button L tfidf model st user_input
       = (st, [Warning ''Please enter some text to classify.''], None)"
  by (simp add: classify_button_def strip_blank)

theorem classify_button_blank_witness:
  "classify_button demo_nltk demo_tfidf demo_model \<lparr>input_text = []\<rparr> ''   ''
       = (\<lparr>input_text = []\<rparr>, [Warning ''Please enter some text to classify.''], None)
   \<and> classify_button demo_nltk demo_tfidf demo_model \<lparr>input_text = []\<rparr> []
       = (\<lparr>input_text = []\<rparr>, [Warning ''Please enter some text to classify.''], None)"
proof -
  have a: "\<forall>c \<in> set ''   ''. isspace c"
    by (simp add: isspace_def)
  have b: "\<forall>c \<in> set []. isspace c"
    by simp
  from classify_button_blank [OF a, of demo_nltk demo_tfidf demo_model "\<lparr>input_text = []\<rparr>"]
       classify_button_blank [OF b, of demo_nltk demo_tfidf demo_model "\<lparr>input_text = []\<rparr>"]
  show ?thesis
    by (intro conjI)
qed

lemma py_max_Max: "py_max (x # xs) = Some (Max (set (x # xs)))"
proof -
  have f: "foldl (\<lambda>m y. if m < y then y else m) a ys = fold max ys a" for a :: "'a" and ys
    by (induction ys arbitrary: a) (auto simp: max_def)
  show ?thesis
    by (simp only: py_max.simps f Max.set_eq_fold)
qed

lemma shown_distribution_progress:
  "shown_distribution (map (\<lambda>(cls, prob). Progress cls prob) zs) = zs"
  by (induction zs) (auto simp: shown_distribution_def)

lemma shown_confidence_progress:
  "shown_confidence (map (\<lambda>(cls, prob). Progress cls prob) zs) = []"
  by (induction zs) (auto simp: shown_confidence_def)

lemma shown_distribution_Cons:
  "shown_distribution (e # evs) =
     (case e of Progress c p \<Rightarrow> [(c, p)] | _ \<Rightarrow> []) @ shown_distribution evs"
  by (simp add: shown_distribution_def)

lemma shown_confidence_Cons:
  "shown_confidence (e # evs) =
     (case e of Confidence p \<Rightarrow> [p] | _ \<Rightarrow> []) @ shown_confidence evs"
  by (simp add: shown_confidence_def)

lemma shown_Nil: "shown_distribution [] = []" "shown_confidence [] = []"
  by (simp_all add: shown_distribution_def shown_confidence_def)

lemma shown_distribution_append:
  "shown_distribution (xs @ ys) = shown_distribution xs @ shown_distribution ys"
  by (simp add: shown_distribution_def)

lemma shown_confidence_append:
  "shown_confidence (xs @ ys) = shown_confidence xs @ shown_confidence ys"
  by (simp add: shown_confidence_def)

lemma mset_sorted_reverse: "mset (sorted_reverse f xs) = mset xs"
  by (simp add: sorted_reverse_def)

lemma sorted_sorted_reverse: "sorted (rev (map f (sorted_reverse f xs)))"
  by (simp add: sorted_reverse_def rev_map)

lemma classify_text_proba:
  assumes "predict_proba model = Some f" and "f (tfidf (preprocess L raw)) = p # ps"
  shows "snd (classify_text L tfidf model raw) = None"
    and "shown_confidence (fst (classify_text L tfidf model raw)) = [Max (set (p # ps))]"
    and "shown_distribution (fst (classify_text L tfidf model raw))
           = sorted_reverse snd (zip (classes model) (p # ps))"
  using assms
  by (simp_all add: classify_text_def Let_def py_max_Max del: py_max.simps
        add: shown_confidence_append shown_distribution_append
             shown_distribution_progress shown_confidence_progress
             shown_confidence_Cons shown_distribution_Cons shown_Nil)

lemma classify_text_plain:
  assumes "predict_proba model = None"
  shows "snd (classify_text L tfidf model raw) = None"
    and "shown_confidence (fst (classify_text L tfidf model raw)) = []"
    and "shown_distribution (fst (classify_text L tfidf model raw)) = []"
  using assms
  by (simp_all add: classify_text_def Let_def
        shown_confidence_Cons shown_distribution_Cons shown_Nil)

text \<open>
  C5. When the classifier has \<open>predict_proba\<close> and returns one probability per class
  (at least one class), the run raises nothing, shows one confidence, the maximum of the
  probabilities, and shows the pairs of class and probability, each class once with its
  own probability, in descending order of probability. When the classifier has no
  \<open>predict_proba\<close>, neither a confidence nor a distribution is shown.
\<close>

theorem classify_text_result:
  "(\<forall>f. predict_proba model = Some f
        \<and> length (f (tfidf (preprocess L raw))) = length (classes model)
        \<and> classes model \<noteq> [] \<longrightarrow>
      snd (classify_text L tfidf model raw) = None
      \<and> shown_confidence (fst (classify_text L tfidf model raw))
          = [Max (set (f (tfidf (preprocess L raw))))]
      \<and> mset (shown_distribution (fst (classify_text L tfidf model raw)))
          = mset (zip (classes model) (f (tfidf (preprocess L raw))))
      \<and> mset (map fst (shown_distribution (fst (classify_text L tfidf model raw))))
          = mset (classes model)
      \<and> sorted (rev (map snd (shown_distribution (fst (classify_text L tfidf model raw))))))
   \<and> (predict_proba model = None \<longrightarrow>
      snd (classify_text L tfidf model raw) = None
      \<and> shown_confidence (fst (classify_text L tfidf model raw)) = []
      \<and> shown_distribution (fst (classify_text L tfidf model raw)) = [])"
proof (intro conjI allI impI)
  fix f
  assume a: "predict_proba model = Some f
        \<and> length (f (tfidf (preprocess L raw))) = length (classes model)
        \<and> classes model \<noteq> []"
  let ?proba = "f (tfidf (preprocess L raw))"
  let ?evs = "fst (classify_text L tfidf model raw)"
  from a obtain p ps where pp: "?proba = p # ps"
    by (cases ?proba) auto
  from a have pf: "predict_proba model = Some f" and len: "length ?proba = length (classes model)"
    by simp_all
  note r = classify_text_proba [where model = model and f = f and tfidf = tfidf
      and L = L and raw = raw and p = p and ps = ps, OF pf pp]
  show "snd (classify_text L tfidf model raw) = None"
    by (rule r(1))
  show "shown_confidence ?evs = [Max (set ?proba)]"
    unfolding pp by (rule r(2))
  have d: "shown_distribution ?evs = sorted_reverse snd (zip (classes model) ?proba)"
    unfolding pp by (rule r(3))
  show m: "mset (shown_distribution ?evs) = mset (zip (classes model) ?proba)"
    unfolding d by (rule mset_sorted_reverse)
  have "mset (map fst (shown_distribution ?evs)) = image_mset fst (mset (shown_distribution ?evs))"
    by simp
  also have "\<dots> = mset (map fst (zip (classes model) ?proba))"
    unfolding m by simp
  also have "\<dots> = mset (classes model)"
    using len by simp
  finally show "mset (map fst (shown_distribution ?evs)) = mset (classes model)" .
  show "sorted (rev (map snd (shown_distribution ?evs)))"
    unfolding d by (rule sorted_sorted_reverse)
next
  assume n: "predict_proba model = None"
  show "snd (classify_text L tfidf model raw) = None"
    and "shown_confidence (fst (classify_text L tfidf model raw)) = []"
    and "shown_distribution (fst (classify_text L tfidf model raw)) = []"
    using classify_text_plain [OF n] by simp_all
qed

theorem classify_text_result_witness:
  "predict_proba demo_model = Some (\<lambda>vec. [0.2, 0.7, 0.1])
   \<and> length [0.2, 0.7, 0.1 :: real] = length (classes demo_model)
   \<and> classes demo_model \<noteq> []
   \<and> snd (classify_text demo_nltk demo_tfidf demo_model ''Grilled salmon'') = None
   \<and> shown_confidence (fst (classify_text demo_nltk demo_tfidf demo_model ''Grilled salmon''))
        = [0.7]
   \<and> mset (map fst (shown_distribution
        (fst (classify_text demo_nltk demo_tfidf demo_model ''Grilled salmon''))))
        = mset [''drinks'', ''food'', ''wines'']
   \<and> sorted (rev (map snd (shown_distribution
        (fst (classify_text demo_nltk demo_tfidf demo_model ''Grilled salmon'')))))
   \<and> predict_proba demo_model_plain = None
   \<and> shown_confidence (fst (classify_text demo_nltk demo_tfidf demo_model_plain ''Grilled salmon''))
        = []
   \<and> shown_distribution (fst (classify_text demo_nltk demo_tfidf demo_model_plain ''Grilled salmon''))
        = []"
proof -
  let ?f = "\<lambda>vec :: nat. [0.2, 0.7, 0.1 :: real]"
  have p: "predict_proba demo_model = Some ?f"
    by (simp add: demo_model_def)
  have c: "classes demo_model = [''drinks'', ''food'', ''wines'']"
    by (simp add: demo_model_def)
  have l: "length [0.2, 0.7, 0.1 :: real] = length (classes demo_model)"
    unfolding c by simp
  have ne: "classes demo_model \<noteq> []"
    unfolding c by simp
  have n: "predict_proba demo_model_plain = None"
    by (simp add: demo_model_plain_def)
  have mx: "Max (set [0.2, 0.7, 0.1 :: real]) = 0.7"
    by simp
  note t1 = classify_text_result [where model = demo_model and tfidf = demo_tfidf
      and L = demo_nltk and raw = "''Grilled salmon''"]
  note t2 = classify_text_result [where model = demo_model_plain and tfidf = demo_tfidf
      and L = demo_nltk and raw = "''Grilled salmon''"]
  from t1 have "\<forall>f. predict_proba demo_model = Some f
        \<and> length (f (demo_tfidf (preprocess demo_nltk ''Grilled salmon''))) = length (classes demo_model)
        \<and> classes demo_model \<noteq> [] \<longrightarrow>
      snd (classify_text demo_nltk demo_tfidf demo_model ''Grilled salmon'') = None
      \<and> shown_confidence (fst (classify_text demo_nltk demo_tfidf demo_model ''Grilled salmon''))
          = [Max (set (f (demo_tfidf (preprocess demo_nltk ''Grilled salmon''))))]
      \<and> mset (shown_distribution (fst (classify_text demo_nltk demo_tfidf demo_model ''Grilled salmon'')))
          = mset (zip (classes demo_model) (f (demo_tfidf (preprocess demo_nltk ''Grilled salmon''))))
      \<and> mset (map fst (shown_distribution (fst (classify_text demo_nltk demo_tfidf demo_model ''Grilled salmon''))))
          = mset (classes demo_model)
      \<and> sorted (rev (map snd (shown_distribution (fst (classify_text demo_nltk demo_tfidf demo_model ''Grilled salmon'')))))"
    by (rule conjunct1)
  from this [rule_format, of ?f] p l ne
  have a: "snd (classify_text demo_nltk demo_tfidf demo_model ''Grilled salmon'') = None"
    and b: "shown_confidence (fst (classify_text demo_nltk demo_tfidf demo_model ''Grilled salmon''))
          = [Max (set [0.2, 0.7, 0.1])]"
    and d: "mset (map fst (shown_distribution (fst (classify_text demo_nltk demo_tfidf demo_model ''Grilled salmon''))))
          = mset (classes demo_model)"
    and e: "sorted (rev (map snd (shown_distribution (fst (classify_text demo_nltk demo_tfidf demo_model ''Grilled salmon'')))))"
    by blast+
  from t2 n
  have g: "shown_confidence (fst (classify_text demo_nltk demo_tfidf demo_model_plain ''Grilled salmon'')) = []"
    and h: "shown_distribution (fst (classify_text demo_nltk demo_tfidf demo_model_plain ''Grilled salmon'')) = []"
    by blast+
  from p l ne a b [unfolded mx] d [unfolded c] e n g h show ?thesis
    by (intro conjI)
qed

lemma classify_text_example:
  "shown_distribution (fst (classify_text L demo_tfidf demo_model raw))
     = [(''food'', 0.7), (''drinks'', 0.2), (''wines'', 0.1)]"
  by (simp add: classify_text_def Let_def demo_model_def sorted_reverse_def
        shown_distribution_append shown_distribution_progress
        shown_distribution_Cons shown_Nil)

section \<open>The normalizer\<close>

lemma preprocess_alt:
  "preprocess L raw =
     join '' '' (map (\<lambda>t. lemmatize L (lemmatize L t Verb) Noun)
       (filter (\<lambda>t. t \<notin> stop_words L \<and> 2 < length t) (word_tokenize L (cleaned raw))))"
  by (simp add: preprocess_def cleaned_def Let_def comp_def)

lemma spec_replace_eq: "spec_replace s = sub_non_letters s"
  unfolding spec_replace_def sub_non_letters_def by (rule map_cong) auto

lemma spec_collapse_eq: "spec_collapse s = sub_spaces s"
  by (induction s rule: spec_collapse.induct) auto

lemma take_rev_dropWhile:
  "take (length xs - length (takeWhile P (rev xs))) xs = rev (dropWhile P (rev xs))"
proof -
  define d where "d = dropWhile P (rev xs)"
  define t where "t = takeWhile P (rev xs)"
  have "rev xs = t @ d"
    by (simp add: d_def t_def)
  then have "rev (rev xs) = rev (t @ d)"
    by (rule arg_cong)
  then have x: "xs = rev d @ rev t"
    by simp
  have "length xs = length (rev d) + length t"
    by (subst x) simp
  then have "take (length xs - length t) xs = take (length (rev d)) (rev d @ rev t)"
    by (subst (2) x) simp
  also have "\<dots> = rev d"
    by simp
  finally show ?thesis
    unfolding d_def t_def .
qed

lemma spec_trim_eq: "spec_trim s = strip s"
  unfolding spec_trim_def strip_def Let_def by (rule take_rev_dropWhile)

lemma spec_remove_eq:
  "spec_remove L ts = filter (\<lambda>t. t \<notin> stop_words L \<and> 2 < length t) ts"
  unfolding spec_remove_def by (rule filter_cong) auto

lemma spec_rejoin_eq: "spec_rejoin ts = join '' '' ts"
proof (induction ts rule: induct_list012)
  case 1
  show ?case by (simp add: spec_rejoin_def)
next
  case (2 t)
  show ?case by (simp add: spec_rejoin_def)
next
  case (3 t u ts)
  from 3(2) show ?case by (simp add: spec_rejoin_def)
qed

text \<open>
  C1. \<open>preprocess\<close> is the composition of the seven steps of the specification, in
  that order, for every input and whatever the tokenizer, the stopword set and the
  lemmatizer are. It is a total function, and when no token of the cleaned text
  survives the filter (each is a stopword or has at most two characters) the result is
  the empty string.
\<close>

theorem preprocess_is_normalize_spec:
  "preprocess L raw = normalize_spec L raw
   \<and> ((\<forall>t \<in> set (word_tokenize L (cleaned raw)). t \<in> stop_words L \<or> length t \<le> 2)
        \<longrightarrow> preprocess L raw = [])"
proof
  show "preprocess L raw = normalize_spec L raw"
    unfolding preprocess_alt normalize_spec_def spec_rejoin_eq spec_remove_eq spec_trim_eq
      spec_collapse_eq spec_replace_eq cleaned_def spec_lemma_def ..
  show "(\<forall>t \<in> set (word_tokenize L (cleaned raw)). t \<in> stop_words L \<or> length t \<le> 2)
        \<longrightarrow> preprocess L raw = []"
  proof
    assume "\<forall>t \<in> set (word_tokenize L (cleaned raw)). t \<in> stop_words L \<or> length t \<le> 2"
    then have "filter (\<lambda>t. t \<notin> stop_words L \<and> 2 < length t) (word_tokenize L (cleaned raw)) = []"
      by (auto simp: filter_empty_conv)
    then show "preprocess L raw = []"
      unfolding preprocess_alt by simp
  qed
qed

lemma cleaned_example: "cleaned ''to a  IN it, at be!'' = ''to a in it at be''"
  by code_simp

lemma preprocess_example:
  "preprocess demo_nltk ''The chefs were cooking delicious meals''
     = ''chef cook delicious meal''"
  by code_simp

theorem preprocess_is_normalize_spec_witness:
  "preprocess demo_nltk ''to a in it at be'' = []
   \<and> preprocess demo_nltk ''to a in it at be'' = normalize_spec demo_nltk ''to a in it at be''"
proof -
  have h: "\<forall>t \<in> set (word_tokenize demo_nltk (cleaned ''to a in it at be'')).
       t \<in> stop_words demo_nltk \<or> length t \<le> 2"
    by code_simp
  from preprocess_is_normalize_spec [of demo_nltk "''to a in it at be''"] h
  show ?thesis
    by blast
qed

lemma is_az_not_space: "is_az c \<Longrightarrow> \<not> isspace c"
  by (auto simp: is_az_def isspace_def Let_def)

lemma space_isspace: "isspace CHR '' ''"
  by (simp add: isspace_def)

lemma lower_char_az: "is_az c \<or> c = CHR '' '' \<Longrightarrow> lower_char c = c"
  by (auto simp: is_az_def lower_char_def Let_def)

lemma set_sub_spaces:
  "c \<in> set (sub_spaces s) \<Longrightarrow> c = CHR '' '' \<or> (c \<in> set s \<and> \<not> isspace c)"
proof (induction s arbitrary: c rule: sub_spaces.induct)
  case 1
  then show ?case by simp
next
  case (2 a cs)
  show ?case
  proof (cases "isspace a")
    case True
    with 2(3) have "c = CHR '' '' \<or> c \<in> set (sub_spaces (dropWhile isspace cs))"
      by simp
    with 2(1) [OF True] set_dropWhileD [of _ isspace cs] show ?thesis
      by auto
  next
    case False
    with 2(3) have "c = a \<or> c \<in> set (sub_spaces cs)"
      by simp
    with 2(2) [OF False] False show ?thesis
      by auto
  qed
qed

lemma set_strip: "c \<in> set (strip s) \<Longrightarrow> c \<in> set s"
proof -
  assume "c \<in> set (strip s)"
  then have "c \<in> set (dropWhile isspace (rev (dropWhile isspace s)))"
    by (simp add: strip_def)
  then have "c \<in> set (rev (dropWhile isspace s))"
    by (rule set_dropWhileD)
  then have "c \<in> set (dropWhile isspace s)"
    by simp
  then show "c \<in> set s"
    by (rule set_dropWhileD)
qed

lemma cleaned_chars: "c \<in> set (cleaned raw) \<Longrightarrow> is_az c \<or> c = CHR '' ''"
proof -
  assume "c \<in> set (cleaned raw)"
  then have "c \<in> set (sub_spaces (sub_non_letters (lower raw)))"
    unfolding cleaned_def by (rule set_strip)
  then have "c = CHR '' '' \<or> (c \<in> set (sub_non_letters (lower raw)) \<and> \<not> isspace c)"
    by (rule set_sub_spaces)
  then show ?thesis
    by (auto simp: sub_non_letters_def)
qed

lemma split_acc_chars:
  "t \<in> set (split_acc cur s) \<Longrightarrow> c \<in> set t \<Longrightarrow> c \<in> set cur \<or> (c \<in> set s \<and> \<not> isspace c)"
proof (induction s arbitrary: cur)
  case Nil
  then show ?case by (auto split: if_splits)
next
  case (Cons a s)
  show ?case
  proof (cases "isspace a")
    case True
    with Cons.prems(1) have "t = cur \<or> t \<in> set (split_acc [] s)"
      by (auto split: if_splits)
    with Cons.IH [of "[]"] Cons.prems(2) show ?thesis
      by auto
  next
    case False
    with Cons.prems(1) have "t \<in> set (split_acc (cur @ [a]) s)"
      by simp
    from Cons.IH [OF this Cons.prems(2)] False show ?thesis
      by auto
  qed
qed

lemma demo_tokens_az:
  "\<forall>s. (\<forall>c \<in> set s. is_az c \<or> c = CHR '' '') \<longrightarrow>
       (\<forall>t \<in> set (word_tokenize demo_nltk s). \<forall>c \<in> set t. is_az c)"
proof (intro allI impI ballI)
  fix s t c
  assume s: "\<forall>c \<in> set s. is_az c \<or> c = CHR '' ''"
    and t: "t \<in> set (word_tokenize demo_nltk s)" and c: "c \<in> set t"
  from t have "t \<in> set (split_acc [] s)"
    by (simp add: demo_nltk_def split_tokenize_def)
  from split_acc_chars [OF this c] have "c \<in> set s" and "\<not> isspace c"
    by simp_all
  with s space_isspace show "is_az c"
    by auto
qed

text \<open>
  C3. A token of the output can be shorter than three characters: the length and
  stopword tests come before lemmatization. With the verb lemma \<open>go\<close> of \<open>went\<close>, the
  input \<open>went\<close> gives the output \<open>go\<close>.
\<close>

theorem preprocess_short_token_counterexample:
  "preprocess demo_nltk ''went'' = ''go'' \<and> \<not> 2 < length ''go''"
  by code_simp

text \<open>
  C3, as the code has it. If the tokenizer returns tokens made of lowercase letters on
  a text made of lowercase letters and spaces, then for every input the output is the
  single-space join of the verb-then-noun lemmas of tokens that are lowercase
  alphabetic, longer than two characters and not stopwords. What holds of the filtered
  tokens is not promised of their lemmas.
\<close>

theorem preprocess_tokens_filtered:
  assumes tok: "\<forall>s. (\<forall>c \<in> set s. is_az c \<or> c = CHR '' '') \<longrightarrow>
                   (\<forall>t \<in> set (word_tokenize L s). \<forall>c \<in> set t. is_az c)"
  shows "\<exists>ts. preprocess L raw
                = join '' '' (map (\<lambda>t. lemmatize L (lemmatize L t Verb) Noun) ts)
             \<and> (\<forall>t \<in> set ts. (\<forall>c \<in> set t. is_az c) \<and> 2 < length t \<and> t \<notin> stop_words L)"
proof -
  let ?ts = "filter (\<lambda>t. t \<notin> stop_words L \<and> 2 < length t) (word_tokenize L (cleaned raw))"
  have "\<forall>c \<in> set (cleaned raw). is_az c \<or> c = CHR '' ''"
    using cleaned_chars by blast
  with tok have "\<forall>t \<in> set (word_tokenize L (cleaned raw)). \<forall>c \<in> set t. is_az c"
    by blast
  then have "\<forall>t \<in> set ?ts. (\<forall>c \<in> set t. is_az c) \<and> 2 < length t \<and> t \<notin> stop_words L"
    by auto
  moreover have "preprocess L raw
      = join '' '' (map (\<lambda>t. lemmatize L (lemmatize L t Verb) Noun) ?ts)"
    by (rule preprocess_alt)
  ultimately show ?thesis
    by blast
qed

theorem preprocess_tokens_filtered_witness:
  "(\<exists>ts. preprocess demo_nltk ''The chefs went cooking''
            = join '' '' (map (\<lambda>t. lemmatize demo_nltk (lemmatize demo_nltk t Verb) Noun) ts)
          \<and> list_all (\<lambda>t. list_all is_az t \<and> 2 < length t \<and> t \<notin> stop_words demo_nltk) ts)
   \<and> preprocess demo_nltk ''The chefs went cooking'' = ''chef go cook''"
proof -
  have e: "preprocess demo_nltk ''The chefs went cooking'' = ''chef go cook''"
    by code_simp
  from preprocess_tokens_filtered [OF demo_tokens_az, of "''The chefs went cooking''"]
  have "\<exists>ts. preprocess demo_nltk ''The chefs went cooking''
            = join '' '' (map (\<lambda>t. lemmatize demo_nltk (lemmatize demo_nltk t Verb) Noun) ts)
          \<and> list_all (\<lambda>t. list_all is_az t \<and> 2 < length t \<and> t \<notin> stop_words demo_nltk) ts"
    unfolding list_all_iff .
  with e show ?thesis
    by (intro conjI)
qed

lemma sub_spaces_word:
  "(\<forall>c \<in> set t. \<not> isspace c) \<Longrightarrow> sub_spaces (t @ r) = t @ sub_spaces r"
  by (induction t) simp_all

lemma join_Cons_word:
  "join '' '' (u # ts) = u @ (if ts = [] then [] else CHR '' '' # join '' '' ts)"
  by (cases ts) simp_all

lemma sub_spaces_join:
  "(\<forall>t \<in> set ts. t \<noteq> [] \<and> (\<forall>c \<in> set t. \<not> isspace c)) \<Longrightarrow>
     sub_spaces (join '' '' ts) = join '' '' ts"
proof (induction ts rule: induct_list012)
  case 1
  show ?case by simp
next
  case (2 t)
  then show ?case
    using sub_spaces_word [of t "[]"] by simp
next
  case (3 t u ts)
  from 3(3) obtain x xs where u: "u = x # xs" and x: "\<not> isspace x"
    by (cases u) auto
  have j: "join '' '' (u # ts) = x # (xs @ (if ts = [] then [] else CHR '' '' # join '' '' ts))"
    unfolding join_Cons_word u by simp
  have d: "dropWhile isspace (join '' '' (u # ts)) = join '' '' (u # ts)"
    unfolding j using x by simp
  from 3(3) have t: "\<forall>c \<in> set t. \<not> isspace c"
    by simp
  from 3(3) have ih: "sub_spaces (join '' '' (u # ts)) = join '' '' (u # ts)"
    by (intro 3(2)) simp
  have "sub_spaces (join '' '' (t # u # ts)) = t @ sub_spaces (CHR '' '' # join '' '' (u # ts))"
    using sub_spaces_word [OF t] by simp
  also have "\<dots> = t @ CHR '' '' # sub_spaces (dropWhile isspace (join '' '' (u # ts)))"
    by (simp add: space_isspace)
  also have "\<dots> = join '' '' (t # u # ts)"
    unfolding d ih by simp
  finally show ?case .
qed

lemma join_ends:
  "ts \<noteq> [] \<Longrightarrow> (\<forall>t \<in> set ts. t \<noteq> []) \<Longrightarrow>
     join '' '' ts \<noteq> [] \<and> hd (join '' '' ts) = hd (hd ts)
     \<and> last (join '' '' ts) = last (last ts)"
proof (induction ts rule: induct_list012)
  case 1
  then show ?case by simp
next
  case (2 t)
  then show ?case by simp
next
  case (3 t u ts)
  from 3(2) 3(4) have "join '' '' (u # ts) \<noteq> []"
    and "last (join '' '' (u # ts)) = last (last (u # ts))"
    by simp_all
  with 3(4) show ?case
    by simp
qed

lemma strip_id:
  "s = [] \<or> (\<not> isspace (hd s) \<and> \<not> isspace (last s)) \<Longrightarrow> strip s = s"
proof (cases s)
  case Nil
  then show ?thesis by (simp add: strip_def)
next
  case (Cons x xs)
  assume "s = [] \<or> (\<not> isspace (hd s) \<and> \<not> isspace (last s))"
  with Cons have x: "\<not> isspace x" and l: "\<not> isspace (last s)"
    by simp_all
  from x have d: "dropWhile isspace s = s"
    unfolding Cons by simp
  from Cons have "rev s \<noteq> []"
    by simp
  then obtain y ys where r: "rev s = y # ys"
    by (cases "rev s") auto
  then have "y = hd (rev s)"
    by simp
  also have "\<dots> = last s"
    using Cons by (simp add: hd_rev)
  finally have "\<not> isspace y"
    using l by simp
  then have "dropWhile isspace (rev s) = rev s"
    unfolding r by simp
  then show ?thesis
    unfolding strip_def d by simp
qed

lemma set_join:
  "c \<in> set (join '' '' ts) \<Longrightarrow> c = CHR '' '' \<or> (\<exists>t \<in> set ts. c \<in> set t)"
  by (induction ts rule: induct_list012) auto

lemma cleaned_join:
  assumes "\<forall>t \<in> set ts. t \<noteq> [] \<and> (\<forall>c \<in> set t. is_az c)"
  shows "cleaned (join '' '' ts) = join '' '' ts"
proof -
  let ?s = "join '' '' ts"
  have chars: "\<forall>c \<in> set ?s. is_az c \<or> c = CHR '' ''"
    using set_join assms by blast
  then have 1: "lower ?s = ?s"
    unfolding lower_def by (intro map_idI) (simp add: lower_char_az)
  from chars have 2: "sub_non_letters ?s = ?s"
    unfolding sub_non_letters_def by (intro map_idI) (auto simp: space_isspace)
  from assms have ns: "\<forall>t \<in> set ts. t \<noteq> [] \<and> (\<forall>c \<in> set t. \<not> isspace c)"
    using is_az_not_space by blast
  then have 3: "sub_spaces ?s = ?s"
    by (rule sub_spaces_join)
  have 4: "strip ?s = ?s"
  proof (cases "ts = []")
    case True
    then show ?thesis by (simp add: strip_def)
  next
    case False
    with ns join_ends [of ts] have e: "?s \<noteq> []" "hd ?s = hd (hd ts)" "last ?s = last (last ts)"
      by simp_all
    from False ns have "hd ts \<in> set ts" "last ts \<in> set ts"
      by simp_all
    with ns have "\<not> isspace (hd (hd ts))" "\<not> isspace (last (last ts))"
      by simp_all
    with e show ?thesis
      by (intro strip_id) simp
  qed
  show ?thesis
    unfolding cleaned_def 1 2 3 4 ..
qed

text \<open>
  C2. \<open>preprocess\<close> is not idempotent on every raw string: the lemma of a token that
  passed the filter can be too short to pass it again. With the verb lemma \<open>go\<close> of
  \<open>went\<close>, the input \<open>went\<close> gives \<open>go\<close>, and \<open>go\<close> gives the empty string.
\<close>

theorem preprocess_idempotent_counterexample:
  "preprocess demo_nltk ''went'' = ''go''
   \<and> preprocess demo_nltk (preprocess demo_nltk ''went'') = []
   \<and> preprocess demo_nltk (preprocess demo_nltk ''went'') \<noteq> preprocess demo_nltk ''went''"
  by code_simp

text \<open>
  C2, as the code has it. A string in normalized form is a fixed point: if \<open>s\<close> is the
  single-space join of tokens, each made of lowercase letters, longer than two
  characters, not a stopword and unchanged by the verb pass followed by the noun pass,
  and the tokenizer splits \<open>s\<close> into these tokens, then \<open>preprocess\<close> returns \<open>s\<close>.
\<close>

theorem preprocess_fixed_point:
  assumes norm: "\<forall>t \<in> set ts. (\<forall>c \<in> set t. is_az c) \<and> 2 < length t \<and> t \<notin> stop_words L
                    \<and> lemmatize L (lemmatize L t Verb) Noun = t"
    and tok: "word_tokenize L (join '' '' ts) = ts"
  shows "preprocess L (join '' '' ts) = join '' '' ts"
proof -
  from norm have "\<forall>t \<in> set ts. t \<noteq> [] \<and> (\<forall>c \<in> set t. is_az c)"
    by auto
  then have c: "cleaned (join '' '' ts) = join '' '' ts"
    by (rule cleaned_join)
  from norm have f: "filter (\<lambda>t. t \<notin> stop_words L \<and> 2 < length t) ts = ts"
    by (intro filter_True) simp
  from norm have m: "map (\<lambda>t. lemmatize L (lemmatize L t Verb) Noun) ts = ts"
    by (intro map_idI) simp
  show ?thesis
    unfolding preprocess_alt c tok f m ..
qed

theorem preprocess_fixed_point_witness:
  "word_tokenize demo_nltk (join '' '' [''chef'', ''cook'', ''delicious'', ''meal''])
       = [''chef'', ''cook'', ''delicious'', ''meal'']
   \<and> join '' '' [''chef'', ''cook'', ''delicious'', ''meal''] = ''chef cook delicious meal''
   \<and> preprocess demo_nltk ''chef cook delicious meal'' = ''chef cook delicious meal''"
proof -
  let ?ts = "[''chef'', ''cook'', ''delicious'', ''meal'']"
  have n: "\<forall>t \<in> set ?ts.
      (\<forall>c \<in> set t. is_az c) \<and> 2 < length t \<and> t \<notin> stop_words demo_nltk
      \<and> lemmatize demo_nltk (lemmatize demo_nltk t Verb) Noun = t"
    by code_simp
  have t: "word_tokenize demo_nltk (join '' '' ?ts) = ?ts"
    by code_simp
  have j: "join '' '' ?ts = ''chef cook delicious meal''"
    by simp
  from preprocess_fixed_point [OF n t]
  have "preprocess demo_nltk ''chef cook delicious meal'' = ''chef cook delicious meal''"
    unfolding j .
  with t j show ?thesis
    by (intro conjI)
qed

end
